theory Spec2Isabelle
  imports Main
begin

section \<open>Data model\<close>

text \<open>
  A row is Go's \<^verbatim>\<open>[]string\<close>, a sheet is \<^verbatim>\<open>[][]string\<close>. Cells are opaque
  strings; the empty cell is the empty string. Rows of one sheet may differ in length.
\<close>

type_synonym row = "string list"

text \<open>The struct \<^verbatim>\<open>ColumnData\<close> that the column templates are executed against.\<close>

record ColumnData =
  Cells :: row
  FileName :: string
  RowNum :: int

text \<open>
  What ends a call other than a normal return: the \<^verbatim>\<open>err\<close> value that
  \<^verbatim>\<open>excelize.OpenFile\<close> hands back and \<^verbatim>\<open>getRows\<close> returns, and the two run-time
  panics the body of \<^verbatim>\<open>getRows\<close> can raise (a slice expression and an index
  expression out of range).
\<close>

datatype failure =
    ReadError string
  | SliceBoundsOutOfRange
  | IndexOutOfRange

text \<open>
  The spreadsheet library is an external collaborator and enters as a parameter:
  \<^verbatim>\<open>excelize.OpenFile(file)\<close> gives an error or a file, and \<^verbatim>\<open>f.GetRows(sheet)\<close>
  gives the rows of a sheet of that file.
\<close>

type_synonym workbook = "string \<Rightarrow> row list"
type_synonym opener = "string \<Rightarrow> string + workbook"

section \<open>Reading one sheet: \<^verbatim>\<open>getRows\<close>\<close>

text \<open>
  The inner loop of \<^verbatim>\<open>getRows\<close>,
  \<^verbatim>\<open>for ci, cell := range row { if cell == "" && ri != 0 { row[ci] = rows[ri-1][ci] } }\<close>.
  \<open>prev\<close> is \<^verbatim>\<open>rows[ri-1]\<close> (as the loop left it one round earlier; it is not read
  when \<open>ri = 0\<close>), \<open>ci\<close> the index of the first cell still to visit. Reading
  \<^verbatim>\<open>rows[ri-1][ci]\<close> past the end of the previous row panics. The rows are taken to
  have backing arrays of their own, as \<^verbatim>\<open>GetRows\<close> allocates them, so writing
  \<^verbatim>\<open>row[ci]\<close> changes no other row. The \<^verbatim>\<open>Debugw\<close> call in the branch reads
  the same \<^verbatim>\<open>rows[ri-1][ci]\<close> and writes a log line only; it is left out.
\<close>

fun inheritCells :: "nat \<Rightarrow> row \<Rightarrow> nat \<Rightarrow> row \<Rightarrow> failure + row" where
  "inheritCells ri prev ci [] = Inr []"
| "inheritCells ri prev ci (cell # cells) =
     (if cell = [] \<and> ri \<noteq> 0 then
        (if ci < length prev then
           (case inheritCells ri prev (Suc ci) cells of
              Inl e \<Rightarrow> Inl e
            | Inr cells' \<Rightarrow> Inr (prev ! ci # cells'))
         else Inl IndexOutOfRange)
      else
        (case inheritCells ri prev (Suc ci) cells of
           Inl e \<Rightarrow> Inl e
         | Inr cells' \<Rightarrow> Inr (cell # cells')))"

text \<open>
  The outer loop, \<^verbatim>\<open>for ri, row := range rows { ...; count = count - 1; if count == 0 { break } }\<close>.
  The list argument holds the rows from index \<open>ri\<close> on, and the result is the whole
  remainder of the slice: the \<^verbatim>\<open>break\<close> leaves the rows behind it in place, untouched.
  \<^verbatim>\<open>count\<close> is a Go \<^verbatim>\<open>int\<close>; it is decremented once per row, so it cannot wrap before
  the slice ends, and is modelled as an unbounded integer.
\<close>

fun fillBlanks :: "nat \<Rightarrow> row \<Rightarrow> int \<Rightarrow> row list \<Rightarrow> failure + row list" where
  "fillBlanks ri prev count [] = Inr []"
| "fillBlanks ri prev count (row # rows) =
     (case inheritCells ri prev 0 row of
        Inl e \<Rightarrow> Inl e
      | Inr row' \<Rightarrow>
          if count - 1 = 0 then Inr (row' # rows)
          else
            (case fillBlanks (Suc ri) row' (count - 1) rows of
               Inl e \<Rightarrow> Inl e
             | Inr rows' \<Rightarrow> Inr (row' # rows')))"

text \<open>
  \<^verbatim>\<open>getRows(l, file, sheet, start, count)\<close>: open the file (an error is returned to the
  caller), read the sheet, drop the first \<^verbatim>\<open>start\<close> rows with \<^verbatim>\<open>rows[start:]\<close> (a panic
  unless \<open>0 \<le> start \<le> len(rows)\<close>), run the fill-down loop and return \<^verbatim>\<open>rows\<close>.
\<close>

definition getRows :: "opener \<Rightarrow> string \<Rightarrow> string \<Rightarrow> int \<Rightarrow> int \<Rightarrow> failure + row list" where
  "getRows openFile file sheet start count =
     (case openFile file of
        Inl err \<Rightarrow> Inl (ReadError err)
      | Inr f \<Rightarrow>
          (let rows = f sheet in
           if start < 0 \<or> int (length rows) < start then Inl SliceBoundsOutOfRange
           else fillBlanks 0 [] count (drop (nat start) rows)))"

section \<open>Column templates: \<^verbatim>\<open>prependColumns\<close>\<close>

text \<open>
  The templates are values of Go's \<^verbatim>\<open>text/template\<close>, a library outside this
  repository, so the template type is a type variable and the one operation the code uses
  is a parameter: \<^verbatim>\<open>exec source columnData\<close> stands for
  \<^verbatim>\<open>source.Execute(toPut, columnData)\<close> on a fresh buffer \<^verbatim>\<open>toPut\<close> and gives what the
  call has written into the buffer together with the error it returns, if any.
\<close>

type_synonym 't executor = "'t \<Rightarrow> ColumnData \<Rightarrow> string \<times> string option"

text \<open>
  The warning that \<^verbatim>\<open>prependColumns\<close> logs,
  \<^verbatim>\<open>l.Warnw("error executing column template", "err", err, "template", ..., "columnData", columnData)\<close>,
  with the error, the template and the \<^verbatim>\<open>ColumnData\<close> of the row. Debug lines are not
  recorded.
\<close>

datatype 't logEntry = Warnw string 't ColumnData

text \<open>
  The inner loop of \<^verbatim>\<open>prependColumns\<close>, \<^verbatim>\<open>for si, source := range sources\<close>: each source
  is executed into a buffer of its own, an error is logged and nothing else, and
  \<^verbatim>\<open>newData[si] = toPut.String()\<close> stores the content of the buffer either way.
\<close>

fun executeSources :: "'t executor \<Rightarrow> ColumnData \<Rightarrow> 't list \<Rightarrow> string list \<times> 't logEntry list" where
  "executeSources exec columnData [] = ([], [])"
| "executeSources exec columnData (source # sources) =
     (let (toPut, err) = exec source columnData;
          warned = (case err of None \<Rightarrow> [] | Some e \<Rightarrow> [Warnw e source columnData]);
          (newData, logged) = executeSources exec columnData sources
      in (toPut # newData, warned @ logged))"

text \<open>
  The outer loop, \<^verbatim>\<open>for ri, row := range rows\<close>: the local \<^verbatim>\<open>columnData\<close> gets the row
  and its index, and \<^verbatim>\<open>rows[ri] = append(newData, row...)\<close> replaces the row. The list
  argument holds the rows from index \<open>ri\<close> on.
\<close>

fun prependRows ::
  "'t executor \<Rightarrow> ColumnData \<Rightarrow> 't list \<Rightarrow> nat \<Rightarrow> row list \<Rightarrow> row list \<times> 't logEntry list" where
  "prependRows exec columnData sources ri [] = ([], [])"
| "prependRows exec columnData sources ri (row # rows) =
     (let columnData' = columnData\<lparr>Cells := row, RowNum := int ri\<rparr>;
          (newData, logged) = executeSources exec columnData' sources;
          (rows', logged') = prependRows exec columnData' sources (Suc ri) rows
      in ((newData @ row) # rows', logged @ logged'))"

definition prependColumns ::
  "'t executor \<Rightarrow> row list \<Rightarrow> ColumnData \<Rightarrow> 't list \<Rightarrow> row list \<times> 't logEntry list" where
  "prependColumns exec rows columnData sources = prependRows exec columnData sources 0 rows"

section \<open>Collating the files: the loop of \<^verbatim>\<open>main\<close>\<close>

text \<open>
  The body of \<^verbatim>\<open>for _, file := range files\<close>: read the rows of the file (an error of
  \<^verbatim>\<open>getRows\<close> is fatal, \<^verbatim>\<open>l.Fatalw\<close> ends the run), and prepend the columns with
  \<^verbatim>\<open>ColumnData{FileName: fileBase}\<close>. \<^verbatim>\<open>filepath.Base\<close> is the parameter \<open>base\<close>; the flags
  \<^verbatim>\<open>sheetName\<close>, \<^verbatim>\<open>rowStart\<close> and \<^verbatim>\<open>rowCount\<close> and the parsed \<^verbatim>\<open>columns\<close> are arguments.
\<close>

definition fileData ::
  "opener \<Rightarrow> (string \<Rightarrow> string) \<Rightarrow> 't executor \<Rightarrow> string \<Rightarrow> int \<Rightarrow> int \<Rightarrow> 't list \<Rightarrow> string
     \<Rightarrow> failure + row list \<times> 't logEntry list" where
  "fileData openFile base exec sheetName rowStart rowCount columns file =
     (case getRows openFile file sheetName rowStart rowCount of
        Inl e \<Rightarrow> Inl e
      | Inr thisData \<Rightarrow>
          Inr (prependColumns exec thisData
                 \<lparr>Cells = [], FileName = base file, RowNum = 0\<rparr> columns))"

text \<open>
  The loop itself, with \<^verbatim>\<open>data = append(data, thisData...)\<close>; \<open>data\<close> and \<open>logged\<close> are what
  the earlier files have left.
\<close>

fun collate ::
  "opener \<Rightarrow> (string \<Rightarrow> string) \<Rightarrow> 't executor \<Rightarrow> string \<Rightarrow> int \<Rightarrow> int \<Rightarrow> 't list
     \<Rightarrow> row list \<Rightarrow> 't logEntry list \<Rightarrow> string list \<Rightarrow> failure + row list \<times> 't logEntry list" where
  "collate openFile base exec sheetName rowStart rowCount columns data logged [] =
     Inr (data, logged)"
| "collate openFile base exec sheetName rowStart rowCount columns data logged (file # files) =
     (case fileData openFile base exec sheetName rowStart rowCount columns file of
        Inl e \<Rightarrow> Inl e
      | Inr (thisData, warned) \<Rightarrow>
          collate openFile base exec sheetName rowStart rowCount columns
            (data @ thisData) (logged @ warned) files)"

section \<open>A fragment of the template language, for the examples\<close>

text \<open>
  The examples below need templates to run. This is the fragment of \<^verbatim>\<open>text/template\<close>
  they use, after the library's documentation: a template is a sequence of text and of
  field actions \<^verbatim>\<open>{{.Name}}\<close>; execution writes the output piece by piece, and an action on
  a field that the struct does not have stops it with an error, whatever was written
  before staying in the buffer (``if an error occurs executing the template or writing
  its output, execution stops, but partial results may already have been written to the
  output writer'').
\<close>

datatype node = TextNode string | FieldNode string

type_synonym template = "node list"

fun digits :: "nat \<Rightarrow> string" where
  "digits n =
     (if n < 10 then [''0123456789'' ! n]
      else digits (n div 10) @ [''0123456789'' ! (n mod 10)])"

definition itoa :: "int \<Rightarrow> string" where
  "itoa i = (if i < 0 then ''-'' @ digits (nat (- i)) else digits (nat i))"

fun joinCells :: "row \<Rightarrow> string" where
  "joinCells [] = []"
| "joinCells [cell] = cell"
| "joinCells (cell # cells) = cell @ '' '' @ joinCells cells"

definition evalField :: "string \<Rightarrow> ColumnData \<Rightarrow> string option" where
  "evalField name columnData =
     (if name = ''Cells'' then Some (''['' @ joinCells (Cells columnData) @ '']'')
      else if name = ''FileName'' then Some (FileName columnData)
      else if name = ''RowNum'' then Some (itoa (RowNum columnData))
      else None)"

fun execute :: "template executor" where
  "execute [] columnData = ([], None)"
| "execute (TextNode text # nodes) columnData =
     (let (written, err) = execute nodes columnData in (text @ written, err))"
| "execute (FieldNode name # nodes) columnData =
     (case evalField name columnData of
        None \<Rightarrow> ([], Some (''cannot evaluate field '' @ name))
      | Some v \<Rightarrow> (let (written, err) = execute nodes columnData in (v @ written, err)))"

section \<open>The rows as the library hands them over, for the examples\<close>


section \<open>Facts about the fill-down loop\<close>

lemma inheritCells_length:
  "inheritCells ri prev ci row = Inr row' \<Longrightarrow> length row' = length row"
  by (induction row arbitrary: ci row') (auto split: if_splits sum.splits)

lemma inheritCells_nth:
  "inheritCells ri prev ci row = Inr row' \<Longrightarrow> k < length row \<Longrightarrow>
     row' ! k = (if row ! k = [] \<and> ri \<noteq> 0 then prev ! (ci + k) else row ! k)"
proof (induction row arbitrary: ci row' k)
  case Nil
  then show ?case by simp
next
  case (Cons cell cells)
  then show ?case
    by (cases k) (auto split: if_splits sum.splits)
qed

lemma inheritCells_first: "inheritCells 0 prev ci row = Inr row"
  by (induction row arbitrary: ci) auto

lemma inheritCells_full: "[] \<notin> set row \<Longrightarrow> inheritCells ri prev ci row = Inr row"
  by (induction row arbitrary: ci) auto

lemma inheritCells_Inl: "inheritCells ri prev ci row = Inl e \<Longrightarrow> e = IndexOutOfRange"
  by (induction row arbitrary: ci) (auto split: if_splits sum.splits)

lemma inheritCells_ok_iff:
  "(\<exists>row'. inheritCells ri prev ci row = Inr row') \<longleftrightarrow>
     (ri = 0 \<or> (\<forall>k<length row. row ! k = [] \<longrightarrow> ci + k < length prev))"
proof (induction row arbitrary: ci)
  case Nil
  then show ?case by simp
next
  case (Cons cell cells)
  show ?case
  proof (cases "ri = 0")
    case True
    then show ?thesis by (simp add: inheritCells_first)
  next
    case False
    have step: "(\<forall>k<length (cell # cells). (cell # cells) ! k = [] \<longrightarrow> ci + k < length prev) \<longleftrightarrow>
        ((cell = [] \<longrightarrow> ci < length prev) \<and>
         (\<forall>k<length cells. cells ! k = [] \<longrightarrow> Suc ci + k < length prev))"
      by (auto simp: nth_Cons split: nat.splits)
    show ?thesis
      unfolding step using Cons.IH [of "Suc ci"] False
      by (auto split: sum.splits)
  qed
qed

lemma fillBlanks_length:
  "fillBlanks ri prev count rows = Inr out \<Longrightarrow> length out = length rows"
  by (induction rows arbitrary: ri prev count out) (auto split: if_splits sum.splits)

lemma fillBlanks_Inl: "fillBlanks ri prev count rows = Inl e \<Longrightarrow> e = IndexOutOfRange"
  by (induction rows arbitrary: ri prev count)
     (auto split: if_splits sum.splits dest: inheritCells_Inl)

lemma fillBlanks_full:
  "\<forall>row\<in>set rows. [] \<notin> set row \<Longrightarrow> fillBlanks ri prev count rows = Inr rows"
  by (induction rows arbitrary: ri prev count) (auto simp: inheritCells_full)

lemma fillBlanks_row_length:
  "fillBlanks ri prev count rows = Inr out \<Longrightarrow> k < length rows \<Longrightarrow>
     length (out ! k) = length (rows ! k)"
proof (induction rows arbitrary: ri prev count out k)
  case Nil
  then show ?case by simp
next
  case (Cons row rows)
  then show ?case
    by (cases k) (auto split: if_splits sum.splits dest: inheritCells_length)
qed

lemma fillBlanks_cell:
  "fillBlanks ri prev count rows = Inr out \<Longrightarrow> k < length rows \<Longrightarrow> c < length (rows ! k) \<Longrightarrow>
     out ! k ! c =
       (if rows ! k ! c = [] \<and> ri + k \<noteq> 0 \<and> (count \<le> 0 \<or> int k < count)
        then (if k = 0 then prev else out ! (k - 1)) ! c
        else rows ! k ! c)"
proof (induction rows arbitrary: ri prev count out k)
  case Nil
  then show ?case by simp
next
  case (Cons row rows)
  from Cons.prems(1) obtain row' where row': "inheritCells ri prev 0 row = Inr row'"
    by (auto split: sum.splits)
  show ?case
  proof (cases k)
    case 0
    have "out ! 0 = row'"
      using Cons.prems(1) row' by (auto split: if_splits sum.splits)
    moreover have "c < length row" using Cons.prems(3) 0 by simp
    ultimately show ?thesis
      using inheritCells_nth [OF row', of c] 0 by auto
  next
    case (Suc j)
    show ?thesis
    proof (cases "count - 1 = 0")
      case True
      then have "out = row' # rows" using Cons.prems(1) row' by simp
      then show ?thesis using True Suc by simp
    next
      case False
      then obtain out' where out': "fillBlanks (Suc ri) row' (count - 1) rows = Inr out'"
        and out: "out = row' # out'"
        using Cons.prems(1) row' by (auto split: sum.splits)
      have j: "j < length rows" "c < length (rows ! j)"
        using Cons.prems(2,3) Suc by simp_all
      have cnt: "(count - 1 \<le> 0 \<or> int j < count - 1) \<longleftrightarrow> (count \<le> 0 \<or> int (Suc j) < count)"
        using False by auto
      have prevrow: "(if j = 0 then row' else out' ! (j - 1)) = (row' # out') ! j"
        by (cases j) simp_all
      have "out' ! j ! c =
          (if rows ! j ! c = [] \<and> Suc ri + j \<noteq> 0 \<and> (count - 1 \<le> 0 \<or> int j < count - 1)
           then (if j = 0 then row' else out' ! (j - 1)) ! c
           else rows ! j ! c)"
        by (rule Cons.IH [OF out' j])
      then have "out' ! j ! c =
          (if rows ! j ! c = [] \<and> (count \<le> 0 \<or> int (Suc j) < count)
           then (row' # out') ! j ! c
           else rows ! j ! c)"
        unfolding cnt prevrow by simp
      then show ?thesis
        unfolding out Suc by auto
    qed
  qed
qed

lemma fillBlanks_ok_iff:
  "(\<exists>out. fillBlanks ri prev count rows = Inr out) \<longleftrightarrow>
     (\<forall>k<length rows. ri + k \<noteq> 0 \<and> (count \<le> 0 \<or> int k < count) \<longrightarrow>
        (\<forall>c<length (rows ! k). rows ! k ! c = [] \<longrightarrow>
           c < length (if k = 0 then prev else rows ! (k - 1))))"
proof (induction rows arbitrary: ri prev count)
  case Nil
  then show ?case by simp
next
  case (Cons row rows)
  let ?P = "\<lambda>k. ri + k \<noteq> 0 \<and> (count \<le> 0 \<or> int k < count) \<longrightarrow>
        (\<forall>c<length ((row # rows) ! k). (row # rows) ! k ! c = [] \<longrightarrow>
           c < length (if k = 0 then prev else (row # rows) ! (k - 1)))"
  have split: "(\<forall>k<length (row # rows). ?P k) \<longleftrightarrow> ?P 0 \<and> (\<forall>j<length rows. ?P (Suc j))"
    by (simp only: length_Cons less_Suc_eq_0_disj) blast
  have head: "(\<exists>row'. inheritCells ri prev 0 row = Inr row') \<longleftrightarrow> ?P 0"
    using inheritCells_ok_iff [of ri prev 0 row] by auto
  show ?case
  proof (cases "inheritCells ri prev 0 row")
    case (Inl e)
    then have "\<not> ?P 0" using head by simp
    then show ?thesis unfolding split using Inl by simp
  next
    case (Inr row')
    then have p0: "?P 0" using head by blast
    have len: "length row' = length row" using Inr by (rule inheritCells_length)
    show ?thesis
    proof (cases "count - 1 = 0")
      case True
      then have "\<forall>j<length rows. ?P (Suc j)" by simp
      then show ?thesis unfolding split using p0 Inr True by simp
    next
      case False
      have "(\<exists>out. fillBlanks ri prev count (row # rows) = Inr out) \<longleftrightarrow>
          (\<exists>out. fillBlanks (Suc ri) row' (count - 1) rows = Inr out)"
        using Inr False by (auto split: sum.splits)
      also have "\<dots> \<longleftrightarrow> (\<forall>j<length rows. Suc ri + j \<noteq> 0 \<and> (count - 1 \<le> 0 \<or> int j < count - 1) \<longrightarrow>
          (\<forall>c<length (rows ! j). rows ! j ! c = [] \<longrightarrow>
             c < length (if j = 0 then row' else rows ! (j - 1))))"
        by (rule Cons.IH)
      also have "\<dots> \<longleftrightarrow> (\<forall>j<length rows. ?P (Suc j))"
      proof -
        have "(Suc ri + j \<noteq> 0 \<and> (count - 1 \<le> 0 \<or> int j < count - 1) \<longrightarrow>
          (\<forall>c<length (rows ! j). rows ! j ! c = [] \<longrightarrow>
             c < length (if j = 0 then row' else rows ! (j - 1)))) \<longleftrightarrow> ?P (Suc j)" for j
          using False len by (cases j) auto
        then show ?thesis by simp
      qed
      finally show ?thesis unfolding split using p0 by simp
    qed
  qed
qed


lemma fillBlanks_fault_iff:
  "fillBlanks ri prev count rows = Inl IndexOutOfRange \<longleftrightarrow>
     \<not> (\<exists>out. fillBlanks ri prev count rows = Inr out)"
proof (cases "fillBlanks ri prev count rows")
  case (Inl e)
  then show ?thesis using fillBlanks_Inl [of ri prev count rows e] by simp
next
  case (Inr out)
  then show ?thesis by simp
qed

lemma getRows_opened:
  "openFile file = Inr f \<Longrightarrow>
     getRows openFile file sheet start count =
       (if start < 0 \<or> int (length (f sheet)) < start then Inl SliceBoundsOutOfRange
        else fillBlanks 0 [] count (drop (nat start) (f sheet)))"
  by (simp add: getRows_def)

section \<open>Facts about the templater and the collating loop\<close>

lemma executeSources_values:
  "fst (executeSources exec columnData sources) = map (\<lambda>source. fst (exec source columnData)) sources"
  by (induction sources) (auto split: prod.splits)

lemma executeSources_logged:
  "snd (executeSources exec columnData sources) =
     concat (map (\<lambda>source. case snd (exec source columnData) of
                               None \<Rightarrow> [] | Some e \<Rightarrow> [Warnw e source columnData]) sources)"
  by (induction sources) (auto split: prod.splits option.splits)

lemma prependRows_Cons:
  "prependRows exec columnData sources ri (row # rows) =
     ((fst (executeSources exec \<lparr>Cells = row, FileName = FileName columnData, RowNum = int ri\<rparr> sources)
         @ row)
        # fst (prependRows exec \<lparr>Cells = row, FileName = FileName columnData, RowNum = int ri\<rparr>
                 sources (Suc ri) rows),
      snd (executeSources exec \<lparr>Cells = row, FileName = FileName columnData, RowNum = int ri\<rparr> sources)
        @ snd (prependRows exec \<lparr>Cells = row, FileName = FileName columnData, RowNum = int ri\<rparr>
                 sources (Suc ri) rows))"
proof -
  have cd: "columnData\<lparr>Cells := row, RowNum := int ri\<rparr> =
      \<lparr>Cells = row, FileName = FileName columnData, RowNum = int ri\<rparr>"
    by simp
  show ?thesis
    unfolding prependRows.simps Let_def cd by (simp add: split_beta)
qed

lemma prependRows_length:
  "length (fst (prependRows exec columnData sources ri rows)) = length rows"
  by (induction rows arbitrary: columnData ri) (simp_all add: prependRows_Cons del: prependRows.simps(2))

lemma prependRows_nth:
  "k < length rows \<Longrightarrow>
     fst (prependRows exec columnData sources ri rows) ! k =
       map (\<lambda>source. fst (exec source
              \<lparr>Cells = rows ! k, FileName = FileName columnData, RowNum = int (ri + k)\<rparr>)) sources
       @ rows ! k"
proof (induction rows arbitrary: columnData ri k)
  case Nil
  then show ?case by simp
next
  case (Cons row rows)
  show ?case
  proof (cases k)
    case 0
    then show ?thesis
      by (simp add: prependRows_Cons executeSources_values del: prependRows.simps(2))
  next
    case (Suc j)
    then have "j < length rows" using Cons.prems by simp
    from Cons.IH [OF this, of "\<lparr>Cells = row, FileName = FileName columnData, RowNum = int ri\<rparr>" "Suc ri"]
    show ?thesis using Suc by (simp add: prependRows_Cons del: prependRows.simps(2))
  qed
qed

lemma prependRows_logged:
  "k < length rows \<Longrightarrow>
     set (snd (executeSources exec
            \<lparr>Cells = rows ! k, FileName = FileName columnData, RowNum = int (ri + k)\<rparr> sources))
       \<subseteq> set (snd (prependRows exec columnData sources ri rows))"
proof (induction rows arbitrary: columnData ri k)
  case Nil
  then show ?case by simp
next
  case (Cons row rows)
  show ?case
  proof (cases k)
    case 0
    then show ?thesis by (simp add: prependRows_Cons del: prependRows.simps(2))
  next
    case (Suc j)
    then have "j < length rows" using Cons.prems by simp
    from Cons.IH [OF this, of "\<lparr>Cells = row, FileName = FileName columnData, RowNum = int ri\<rparr>" "Suc ri"]
    show ?thesis using Suc by (auto simp add: prependRows_Cons simp del: prependRows.simps(2))
  qed
qed

lemma executeSources_warned:
  "si < length sources \<Longrightarrow> exec (sources ! si) columnData = (written, Some e) \<Longrightarrow>
     Warnw e (sources ! si) columnData \<in> set (snd (executeSources exec columnData sources))"
proof (induction sources arbitrary: si)
  case Nil
  then show ?case by simp
next
  case (Cons source sources)
  then show ?case by (cases si) (auto split: prod.splits)
qed

lemma collate_concat:
  "(\<And>file. file \<in> set files \<Longrightarrow>
      fileData openFile base exec sheetName rowStart rowCount columns file
        = Inr (rowsOf file, warnedOf file)) \<Longrightarrow>
   collate openFile base exec sheetName rowStart rowCount columns data logged files
     = Inr (data @ concat (map rowsOf files), logged @ concat (map warnedOf files))"
  by (induction files arbitrary: data logged) auto

section \<open>The claims about \<^verbatim>\<open>getRows\<close>\<close>

text \<open>
  C1 (row-count cap). \<^verbatim>\<open>getRows\<close> stops filling blanks after \<^verbatim>\<open>count\<close> rows, but it
  returns the whole slice \<^verbatim>\<open>rows\<close>, not its first \<^verbatim>\<open>count\<close> rows: on a sheet of five
  rows with \<^verbatim>\<open>start = 0\<close> and \<^verbatim>\<open>count = 2\<close> all five rows come back, the first two
  blank-filled and the last three as they were read.
\<close>

theorem getRows_count_two_returns_five_rows:
  "getRows (\<lambda>file. Inr (\<lambda>sheet. [[''a''], [''''], [''''], [''''], ['''']]))
     ''f.xlsx'' ''Sheet1'' 0 2
   = Inr [[''a''], [''a''], [''''], [''''], ['''']]"
  by (simp add: getRows_def)





text \<open>
  C3 (start offset at and past the end), as the code has it. \<^verbatim>\<open>rows[start:]\<close> is the
  empty slice when \<^verbatim>\<open>start\<close> equals the number of rows, and \<^verbatim>\<open>getRows\<close> then returns no
  rows and no error; when \<^verbatim>\<open>start\<close> exceeds the number of rows the slice expression
  panics, so \<^verbatim>\<open>getRows\<close> does not return at all.
\<close>

theorem getRows_offset_bounds:
  assumes "openFile file = Inr f"
  shows "(int (length (f sheet)) < start \<longrightarrow>
            getRows openFile file sheet start count = Inl SliceBoundsOutOfRange)
       \<and> (start = int (length (f sheet)) \<longrightarrow>
            getRows openFile file sheet start count = Inr [])"
  using assms by (simp add: getRows_opened)

text \<open>On a sheet of two rows: offset 5 faults, offset 2 gives the empty sequence.\<close>

theorem getRows_offset_bounds_witness:
  "getRows (\<lambda>file. Inr (\<lambda>sheet. [[''h''], [''x'']])) ''f.xlsx'' ''Sheet1'' 5 0
     = Inl SliceBoundsOutOfRange
   \<and> getRows (\<lambda>file. Inr (\<lambda>sheet. [[''h''], [''x'']])) ''f.xlsx'' ''Sheet1'' 2 0 = Inr []"
  using getRows_offset_bounds [of "\<lambda>file. Inr (\<lambda>sheet. [[''h''], [''x'']])" "''f.xlsx''"
      "\<lambda>sheet. [[''h''], [''x'']]" "''Sheet1''" 5 0]
    getRows_offset_bounds [of "\<lambda>file. Inr (\<lambda>sheet. [[''h''], [''x'']])" "''f.xlsx''"
      "\<lambda>sheet. [[''h''], [''x'']]" "''Sheet1''" 2 0]
  by simp

text \<open>
  The claim as the specification words it (an offset past the end gives an empty sequence
  and no fault) is false at offset 3 on a sheet of two rows.
\<close>

theorem getRows_offset_past_end_counterexample:
  "getRows (\<lambda>file. Inr (\<lambda>sheet. [[''h''], [''x'']])) ''f.xlsx'' ''Sheet1'' 3 0
   = Inl SliceBoundsOutOfRange"
  by (simp add: getRows_def)

text \<open>
  C6 (fill-down propagation). On every sheet in which each empty cell below the first
  row has a cell above it, the loop returns, and in every row after the first that it
  visits (all of them without a row limit) each empty cell has become the cell of the
  same column in the already-filled row before it, each other cell is as it was.
\<close>

theorem fillBlanks_fill_down:
  assumes "\<forall>k<length rows. 0 < k \<and> (count \<le> 0 \<or> int k < count) \<longrightarrow>
             (\<forall>c<length (rows ! k). rows ! k ! c = [] \<longrightarrow> c < length (rows ! (k - 1)))"
  shows "\<exists>out. fillBlanks 0 [] count rows = Inr out \<and> length out = length rows \<and>
           (\<forall>k<length rows. 0 < k \<and> (count \<le> 0 \<or> int k < count) \<longrightarrow>
              (\<forall>c<length (rows ! k).
                 out ! k ! c = (if rows ! k ! c = [] then out ! (k - 1) ! c else rows ! k ! c)))"
proof -
  have "\<forall>k<length rows. 0 + k \<noteq> 0 \<and> (count \<le> 0 \<or> int k < count) \<longrightarrow>
        (\<forall>c<length (rows ! k). rows ! k ! c = [] \<longrightarrow>
           c < length (if k = 0 then [] else rows ! (k - 1)))"
    using assms by auto
  then obtain out where out: "fillBlanks 0 [] count rows = Inr out"
    unfolding fillBlanks_ok_iff [symmetric] by blast
  have "out ! k ! c = (if rows ! k ! c = [] then out ! (k - 1) ! c else rows ! k ! c)"
    if "k < length rows" "0 < k" "count \<le> 0 \<or> int k < count" "c < length (rows ! k)" for k c
    using fillBlanks_cell [OF out that(1) that(4)] that(2,3) by auto
  with out fillBlanks_length [OF out] show ?thesis by blast
qed

text \<open>The specification's example: \<open>"a"\<close> runs down the first column.\<close>

theorem fillBlanks_fill_down_witness:
  "fillBlanks 0 [] 0 [[''a'', ''b''], ['''', ''c''], ['''', ''d'']]
   = Inr [[''a'', ''b''], [''a'', ''c''], [''a'', ''d'']]"
proof -
  let ?rows = "[[''a'', ''b''], ['''', ''c''], ['''', ''d'']]"
  have "\<forall>k<length ?rows. 0 < k \<and> ((0::int) \<le> 0 \<or> int k < 0) \<longrightarrow>
          (\<forall>c<length (?rows ! k). ?rows ! k ! c = [] \<longrightarrow> c < length (?rows ! (k - 1)))"
    by (simp add: All_less_Suc nth_Cons')
  from fillBlanks_fill_down [OF this]
  obtain out where "fillBlanks 0 [] 0 ?rows = Inr out" by blast
  then show ?thesis by simp
qed

text \<open>
  C7 (first-row exemption). A sheet of one row is returned as it is, empty cells
  included; and whatever the loop returns on a longer sheet, its first row is the first
  row it was given: an empty cell of row 0 stays empty, also when a later row has a value
  in that column.
\<close>

theorem fillBlanks_first_row_unchanged:
  "fillBlanks 0 [] count [row] = Inr [row]
   \<and> (fillBlanks 0 [] count (row # rows) = Inr out \<longrightarrow> out \<noteq> [] \<and> out ! 0 = row)"
  by (auto simp: inheritCells_first split: if_splits sum.splits)

text \<open>
  The specification's example \<open>[["", "x"]]\<close>, and the same first row with a second row
  below it that has a value in the first column.
\<close>

theorem fillBlanks_first_row_unchanged_witness:
  "fillBlanks 0 [] 0 [['''', ''x'']] = Inr [['''', ''x'']]
   \<and> fillBlanks 0 [] 0 [['''', ''x''], [''y'', '''']] = Inr [['''', ''x''], [''y'', ''x'']]
   \<and> [['''', ''x''], [''y'', ''x'']] ! 0 = ['''', ''x'']"
proof -
  have run: "fillBlanks 0 [] 0 [['''', ''x''], [''y'', '''']] = Inr [['''', ''x''], [''y'', ''x'']]"
    by simp
  from fillBlanks_first_row_unchanged [of 0 "['''', ''x'']" "[[''y'', '''']]"
      "[['''', ''x''], [''y'', ''x'']]"] run
  show ?thesis by blast
qed

text \<open>
  C8 (identity on fully populated sheets). A sheet without an empty cell is returned as
  it is, whatever the lengths of its rows and whatever the row limit.
\<close>

theorem fillBlanks_no_blanks_identity:
  "\<forall>row\<in>set rows. [] \<notin> set row \<Longrightarrow> fillBlanks 0 [] count rows = Inr rows"
  by (rule fillBlanks_full)

theorem fillBlanks_no_blanks_identity_witness:
  "fillBlanks 0 [] 0 [[''a'', ''b''], [''c'', ''d'']] = Inr [[''a'', ''b''], [''c'', ''d'']]"
proof -
  have "\<forall>row\<in>set [[''a'', ''b''], [''c'', ''d'']]. [] \<notin> set row" by simp
  then show ?thesis by (rule fillBlanks_no_blanks_identity)
qed

text \<open>
  C10 (frame of the fill-down pass). The rows the loop returns are as many as it was
  given, each as long as before, and every cell either is the input cell or stands where
  the input cell was empty.
\<close>

theorem fillBlanks_frame:
  assumes "fillBlanks 0 [] count rows = Inr out"
  shows "length out = length rows \<and>
         (\<forall>k<length rows. length (out ! k) = length (rows ! k) \<and>
            (\<forall>c<length (rows ! k). out ! k ! c = rows ! k ! c \<or> rows ! k ! c = []))"
proof -
  have "out ! k ! c = rows ! k ! c \<or> rows ! k ! c = []"
    if "k < length rows" "c < length (rows ! k)" for k c
    using fillBlanks_cell [OF assms that] by (simp split: if_splits)
  then show ?thesis
    using fillBlanks_length [OF assms] fillBlanks_row_length [OF assms] by blast
qed

theorem fillBlanks_frame_witness:
  "fillBlanks 0 [] 0 [[''a'', ''b''], ['''', ''c'']] = Inr [[''a'', ''b''], [''a'', ''c'']]
   \<and> length [[''a'', ''b''], [''a'', ''c'']] = length [[''a'', ''b''], ['''', ''c'']]"
proof -
  have run: "fillBlanks 0 [] 0 [[''a'', ''b''], ['''', ''c'']] = Inr [[''a'', ''b''], [''a'', ''c'']]"
    by simp
  from fillBlanks_frame [OF run] show ?thesis using run by blast
qed

section \<open>The claims about \<^verbatim>\<open>prependColumns\<close> and the loop of \<^verbatim>\<open>main\<close>\<close>

text \<open>
  C4 (recoverable template failure), as the code has it. When the template \<open>si\<close> fails
  on the row \<open>ri\<close>, its cell holds what the template had written into its buffer before
  it failed (the code stores \<^verbatim>\<open>toPut.String()\<close> whether or not \<^verbatim>\<open>err\<close> is nil, so the
  cell is the empty string only when nothing had been written), a warning with the error,
  the template and the row's \<^verbatim>\<open>ColumnData\<close> is logged, and the run goes on: no row is
  lost, every row has a cell for every template, each holding what that template wrote
  for that row, and the original cells follow them.
\<close>

theorem prependColumns_template_failure:
  assumes "ri < length rows" and "si < length sources"
    and "exec (sources ! si)
           \<lparr>Cells = rows ! ri, FileName = FileName columnData, RowNum = int ri\<rparr>
         = (written, Some e)"
  shows "fst (prependColumns exec rows columnData sources) ! ri ! si = written
       \<and> Warnw e (sources ! si)
             \<lparr>Cells = rows ! ri, FileName = FileName columnData, RowNum = int ri\<rparr>
           \<in> set (snd (prependColumns exec rows columnData sources))
       \<and> length (fst (prependColumns exec rows columnData sources)) = length rows
       \<and> (\<forall>rj<length rows. \<forall>sj<length sources.
             fst (prependColumns exec rows columnData sources) ! rj ! sj =
               fst (exec (sources ! sj)
                      \<lparr>Cells = rows ! rj, FileName = FileName columnData, RowNum = int rj\<rparr>))
       \<and> (\<forall>rj<length rows.
             drop (length sources) (fst (prependColumns exec rows columnData sources) ! rj)
               = rows ! rj)"
proof -
  let ?out = "fst (prependColumns exec rows columnData sources)"
  let ?ctx = "\<lambda>rj. \<lparr>Cells = rows ! rj, FileName = FileName columnData, RowNum = int rj\<rparr>"
  have row: "?out ! rj = map (\<lambda>source. fst (exec source (?ctx rj))) sources @ rows ! rj"
    if "rj < length rows" for rj
    using prependRows_nth [OF that, of exec columnData sources 0]
    by (simp add: prependColumns_def)
  have cell: "?out ! rj ! sj = fst (exec (sources ! sj) (?ctx rj))"
    if "rj < length rows" "sj < length sources" for rj sj
    using that by (simp add: row nth_append)
  have rest: "drop (length sources) (?out ! rj) = rows ! rj" if "rj < length rows" for rj
    using that by (simp add: row)
  have "Warnw e (sources ! si) (?ctx ri) \<in> set (snd (executeSources exec (?ctx ri) sources))"
    using assms(2,3) by (rule executeSources_warned)
  then have warned: "Warnw e (sources ! si) (?ctx ri)
      \<in> set (snd (prependColumns exec rows columnData sources))"
    using prependRows_logged [OF assms(1), of exec columnData 0 sources]
    by (auto simp: prependColumns_def)
  have "?out ! ri ! si = written"
    using cell [OF assms(1,2)] assms(3) by simp
  moreover have "length ?out = length rows"
    by (simp add: prependColumns_def prependRows_length)
  ultimately show ?thesis using warned cell rest by blast
qed

text \<open>
  The template \<^verbatim>\<open>x{{.Nope}}y\<close> fails on every row after it has written \<open>x\<close>; that is
  the cell it leaves in the first of two rows.
\<close>

theorem prependColumns_template_failure_witness:
  "fst (prependColumns execute [[''v1'', ''v2''], [''w1'', ''w2'']]
         \<lparr>Cells = [], FileName = ''f.xlsx'', RowNum = 0\<rparr>
         [[TextNode ''x'', FieldNode ''Nope'', TextNode ''y''], [FieldNode ''FileName'']]) ! 0 ! 0
   = ''x''"
proof -
  have "execute ([[TextNode ''x'', FieldNode ''Nope'', TextNode ''y''], [FieldNode ''FileName'']] ! 0)
          \<lparr>Cells = [[''v1'', ''v2''], [''w1'', ''w2'']] ! 0,
           FileName = FileName \<lparr>Cells = [], FileName = ''f.xlsx'', RowNum = 0\<rparr>,
           RowNum = int 0\<rparr>
        = (''x'', Some ''cannot evaluate field Nope'')"
    by (simp add: evalField_def)
  from prependColumns_template_failure [of 0 "[[''v1'', ''v2''], [''w1'', ''w2'']]" 0
      "[[TextNode ''x'', FieldNode ''Nope'', TextNode ''y''], [FieldNode ''FileName'']]" execute
      "\<lparr>Cells = [], FileName = ''f.xlsx'', RowNum = 0\<rparr>" "''x''" "''cannot evaluate field Nope''",
      OF _ _ this]
  show ?thesis by simp
qed

text \<open>
  The claim as the specification words it (a failing template yields the empty string)
  is false for the template \<^verbatim>\<open>x{{.Nope}}\<close>: its execution fails, and the row
  \<open>["v1", "v2"]\<close> becomes \<open>["x", "v1", "v2"]\<close>.
\<close>

theorem prependColumns_failure_not_empty_counterexample:
  "snd (execute [TextNode ''x'', FieldNode ''Nope'']
          \<lparr>Cells = [''v1'', ''v2''], FileName = ''f.xlsx'', RowNum = 0\<rparr>) \<noteq> None
   \<and> fst (prependColumns execute [[''v1'', ''v2'']]
            \<lparr>Cells = [], FileName = ''f.xlsx'', RowNum = 0\<rparr>
            [[TextNode ''x'', FieldNode ''Nope'']])
       = [[''x'', ''v1'', ''v2'']]"
  by (simp add: prependColumns_def evalField_def)

text \<open>
  C5 (template prepend order). \<^verbatim>\<open>prependColumns\<close> keeps the number of rows, and the row
  \<open>ri\<close> becomes the values of the templates, one for each template in the order of the
  list, each executed against the cells of the row, the file name and the index \<open>ri\<close>,
  followed by the cells the row had.
\<close>

theorem prependColumns_prepends_in_order:
  "length (fst (prependColumns exec rows columnData sources)) = length rows
   \<and> (\<forall>ri<length rows.
        fst (prependColumns exec rows columnData sources) ! ri =
          map (\<lambda>source. fst (exec source
                 \<lparr>Cells = rows ! ri, FileName = FileName columnData, RowNum = int ri\<rparr>)) sources
          @ rows ! ri)"
  using prependRows_nth [of _ rows exec columnData sources 0]
  by (simp add: prependColumns_def prependRows_length)

text \<open>
  The specification's example, with \<^verbatim>\<open>{{.FileName}}\<close> and \<^verbatim>\<open>{{.RowNum}}\<close> for the two
  templates and \<open>["v1", "v2"]\<close> as the row of index 2.
\<close>

theorem prependColumns_prepends_in_order_witness:
  "fst (prependColumns execute [[''h1'', ''h2''], [''u1'', ''u2''], [''v1'', ''v2'']]
         \<lparr>Cells = [], FileName = ''f.xlsx'', RowNum = 0\<rparr>
         [[FieldNode ''FileName''], [FieldNode ''RowNum'']]) ! 2
   = [''f.xlsx'', ''2'', ''v1'', ''v2'']"
proof -
  let ?rows = "[[''h1'', ''h2''], [''u1'', ''u2''], [''v1'', ''v2'']]"
  have "(2::nat) < length ?rows" by simp
  with prependColumns_prepends_in_order [of execute ?rows
      "\<lparr>Cells = [], FileName = ''f.xlsx'', RowNum = 0\<rparr>"
      "[[FieldNode ''FileName''], [FieldNode ''RowNum'']]"]
  have "fst (prependColumns execute ?rows \<lparr>Cells = [], FileName = ''f.xlsx'', RowNum = 0\<rparr>
          [[FieldNode ''FileName''], [FieldNode ''RowNum'']]) ! 2 =
        map (\<lambda>source. fst (execute source
               \<lparr>Cells = ?rows ! 2,
                FileName = FileName \<lparr>Cells = [], FileName = ''f.xlsx'', RowNum = 0\<rparr>,
                RowNum = int 2\<rparr>)) [[FieldNode ''FileName''], [FieldNode ''RowNum'']]
        @ ?rows ! 2"
    by blast
  then show ?thesis by (simp add: evalField_def itoa_def)
qed

text \<open>
  C9 (file-order preservation). When \<^verbatim>\<open>getRows\<close> succeeds on every file of the list, the
  loop of \<^verbatim>\<open>main\<close> ends with \<^verbatim>\<open>data\<close> being the rows of the first file with their new
  columns, then those of the second, and so on in the order of the list; and the rows of
  one file stand in the order \<^verbatim>\<open>getRows\<close> gave them, each behind its new columns.
\<close>

theorem collate_preserves_file_order:
  assumes "\<And>file. file \<in> set files \<Longrightarrow>
             getRows openFile file sheetName rowStart rowCount = Inr (sheetOf file)"
  shows "collate openFile base exec sheetName rowStart rowCount columns [] [] files =
           Inr (concat (map (\<lambda>file. fst (prependColumns exec (sheetOf file)
                                 \<lparr>Cells = [], FileName = base file, RowNum = 0\<rparr> columns)) files),
                concat (map (\<lambda>file. snd (prependColumns exec (sheetOf file)
                                 \<lparr>Cells = [], FileName = base file, RowNum = 0\<rparr> columns)) files))
       \<and> (\<forall>file\<in>set files.
            length (fst (prependColumns exec (sheetOf file)
                           \<lparr>Cells = [], FileName = base file, RowNum = 0\<rparr> columns))
              = length (sheetOf file)
            \<and> (\<forall>ri<length (sheetOf file).
                 drop (length columns)
                   (fst (prependColumns exec (sheetOf file)
                           \<lparr>Cells = [], FileName = base file, RowNum = 0\<rparr> columns) ! ri)
                 = sheetOf file ! ri))"
proof -
  have "fileData openFile base exec sheetName rowStart rowCount columns path =
      Inr (fst (prependColumns exec (sheetOf path)
                  \<lparr>Cells = [], FileName = base path, RowNum = 0\<rparr> columns),
           snd (prependColumns exec (sheetOf path)
                  \<lparr>Cells = [], FileName = base path, RowNum = 0\<rparr> columns))"
    if "path \<in> set files" for path
    using assms [OF that] by (simp add: fileData_def)
  from collate_concat [of files openFile base exec sheetName rowStart rowCount columns
      "\<lambda>file. fst (prependColumns exec (sheetOf file)
                  \<lparr>Cells = [], FileName = base file, RowNum = 0\<rparr> columns)"
      "\<lambda>file. snd (prependColumns exec (sheetOf file)
                  \<lparr>Cells = [], FileName = base file, RowNum = 0\<rparr> columns)" "[]" "[]", OF this]
  have whole: "collate openFile base exec sheetName rowStart rowCount columns [] [] files =
           Inr (concat (map (\<lambda>file. fst (prependColumns exec (sheetOf file)
                                 \<lparr>Cells = [], FileName = base file, RowNum = 0\<rparr> columns)) files),
                concat (map (\<lambda>file. snd (prependColumns exec (sheetOf file)
                                 \<lparr>Cells = [], FileName = base file, RowNum = 0\<rparr> columns)) files))"
    by simp
  have "drop (length columns) (fst (prependColumns exec rows columnData columns) ! ri) = rows ! ri"
    if "ri < length rows" for rows ri and columnData :: ColumnData
    using prependRows_nth [OF that, of exec columnData columns 0]
    by (simp add: prependColumns_def)
  then show ?thesis
    using whole by (simp add: prependColumns_def prependRows_length)
qed

text \<open>
  The specification's example: \<open>A.xlsx\<close> with two rows, then \<open>B.xlsx\<close> with one, and the
  template \<^verbatim>\<open>{{.FileName}}\<close> to show where each output row comes from.
\<close>

theorem collate_preserves_file_order_witness:
  "collate
     (\<lambda>file. if file = ''A.xlsx'' then Inr (\<lambda>sheet. [[''a1''], [''a2'']])
             else if file = ''B.xlsx'' then Inr (\<lambda>sheet. [[''b1'']])
             else Inl ''no such file'')
     (\<lambda>path. path) execute ''Sheet1'' 0 0 [[FieldNode ''FileName'']] [] []
     [''A.xlsx'', ''B.xlsx'']
   = Inr ([[''A.xlsx'', ''a1''], [''A.xlsx'', ''a2''], [''B.xlsx'', ''b1'']], [])"
proof -
  let ?open = "\<lambda>file. if file = ''A.xlsx'' then Inr (\<lambda>sheet::string. [[''a1''], [''a2'']])
             else if file = ''B.xlsx'' then Inr (\<lambda>sheet. [[''b1'']])
             else (Inl ''no such file'' :: string + workbook)"
  let ?sheetOf = "\<lambda>file. if file = ''A.xlsx'' then [[''a1''], [''a2'']] else [[''b1'']]"
  have "getRows ?open path ''Sheet1'' 0 0 = Inr (?sheetOf path)"
    if "path \<in> set [''A.xlsx'', ''B.xlsx'']" for path
    using that by (auto simp: getRows_def)
  from collate_preserves_file_order [of "[''A.xlsx'', ''B.xlsx'']" ?open "''Sheet1''" 0 0 ?sheetOf
      "\<lambda>path. path" execute "[[FieldNode ''FileName'']]", OF this]
  show ?thesis by (simp add: prependColumns_def evalField_def)
qed

end
